theory Spec2Isabelle
  imports Complex_Main "HOL-Library.Word" "HOL-Library.Multiset"
begin

section \<open>JavaScript strings\<close>

text \<open>
  A JavaScript string is a sequence of 16-bit code units; \<open>length\<close> counts code units.
\<close>

type_synonym jschar = "16 word"
type_synonym jsstring = "jschar list"

text \<open>
  The characters matched by \<open>\s\<close> in a regular expression and removed by
  \<open>String.prototype.trim\<close>: the ECMAScript WhiteSpace and LineTerminator code points
  (tab, LF, VT, FF, CR, space, NBSP, U+1680, U+2000 to U+200A, U+2028, U+2029, U+202F,
  U+205F, U+3000 and U+FEFF).
\<close>

definition is_ws :: "jschar \<Rightarrow> bool" where
  "is_ws c \<longleftrightarrow>
     c = 0x09 \<or> c = 0x0A \<or> c = 0x0B \<or> c = 0x0C \<or> c = 0x0D \<or> c = 0x20 \<or>
     c = 0xA0 \<or> c = 0x1680 \<or> (0x2000 \<le> c \<and> c \<le> 0x200A) \<or>
     c = 0x2028 \<or> c = 0x2029 \<or> c = 0x202F \<or> c = 0x205F \<or> c = 0x3000 \<or> c = 0xFEFF"

text \<open>The character class \<open>[\u0001-\u001F]\<close>.\<close>

definition is_c0 :: "jschar \<Rightarrow> bool" where
  "is_c0 c \<longleftrightarrow> 0x01 \<le> c \<and> c \<le> 0x1F"

text \<open>\<open>s.replace(/\s+/g, " ")\<close>: every maximal run of whitespace becomes one space.\<close>

function collapse_ws :: "jsstring \<Rightarrow> jsstring" where
  "collapse_ws [] = []"
| "collapse_ws (c # cs) =
     (if is_ws c then 0x20 # collapse_ws (dropWhile is_ws cs) else c # collapse_ws cs)"
  by pat_completeness auto
termination
  by (relation "measure length") (auto simp: less_Suc_eq_le length_dropWhile_le)

text \<open>\<open>s.trim()\<close>.\<close>

definition trim :: "jsstring \<Rightarrow> jsstring" where
  "trim s = rev (dropWhile is_ws (rev (dropWhile is_ws s)))"

section \<open>Text normalizer\<close>

text \<open>
  \<^verbatim>\<open>
  function cleanText(text) {
    return text
      .replace(/\0/g, "")
      .replace(/[\u0001-\u001F]/g, "")
      .replace(/\s+/g, " ")
      .trim();
  }
  \<close>
\<close>

definition cleanText :: "jsstring \<Rightarrow> jsstring" where
  "cleanText text =
     trim (collapse_ws (filter (\<lambda>c. \<not> is_c0 c) (filter (\<lambda>c. c \<noteq> 0) text)))"

section \<open>Chunking engine\<close>

text \<open>
  \<open>text.split("\n\n")\<close>: the pieces between successive non-overlapping occurrences of
  two line feeds, found left to right; the empty string splits into one empty piece.
\<close>

fun split_nn :: "jsstring \<Rightarrow> jsstring list" where
  "split_nn [] = [[]]"
| "split_nn [c] = [[c]]"
| "split_nn (a # b # cs) =
     (if a = 0x0A \<and> b = 0x0A then [] # split_nn cs
      else (case split_nn (b # cs) of
              p # ps \<Rightarrow> (a # p) # ps
            | [] \<Rightarrow> [[a]]))"

text \<open>
  \<open>text.indexOf(pat, from)\<close>: the start position is clamped to \<open>[0, text.length]\<close>; the
  result is the least position at or after it where \<open>pat\<close> occurs, and \<open>-1\<close> when there is none.
\<close>

definition indexOf :: "jsstring \<Rightarrow> jsstring \<Rightarrow> int \<Rightarrow> int" where
  "indexOf text pat from =
     (let k = nat (min (max from 0) (int (length text)))
      in case find (\<lambda>i. take (length pat) (drop i text) = pat) [k..<Suc (length text)] of
           Some i \<Rightarrow> int i
         | None \<Rightarrow> - 1)"

datatype chunk_type = Paragraph | Recursive | Hybrid

record chunk =
  chunk_text :: jsstring
  chunk_index :: nat
  chunk_type :: chunk_type
  char_start :: int
  char_end :: int

text \<open>
  \<^verbatim>\<open>
  function paragraphChunkWithMeta(text) {
    const chunks = [];
    let cursor = 0;
    let index = 0;
    for (const part of text.split("\n\n")) {
      const trimmed = cleanText(part);
      if (!trimmed) { cursor += part.length + 2; continue; }
      const start = text.indexOf(trimmed, cursor);
      const end = start + trimmed.length;
      chunks.push({ chunk_text: trimmed, chunk_index: index++, chunk_type: "paragraph",
                    char_start: start, char_end: end });
      cursor = end;
    }
    return chunks;
  }
  \<close>
  The loop is a recursion over the remaining parts, carrying \<open>chunks\<close>, \<open>cursor\<close> and
  \<open>index\<close>.
\<close>

fun paragraph_loop :: "jsstring \<Rightarrow> jsstring list \<Rightarrow> chunk list \<Rightarrow> int \<Rightarrow> nat \<Rightarrow> chunk list" where
  "paragraph_loop text [] chunks cursor index = chunks"
| "paragraph_loop text (part # parts) chunks cursor index =
     (let trimmed = cleanText part in
      if trimmed = [] then
        paragraph_loop text parts chunks (cursor + int (length part) + 2) index
      else
        let start = indexOf text trimmed cursor;
            end = start + int (length trimmed)
        in paragraph_loop text parts
             (chunks @ [\<lparr>chunk_text = trimmed, chunk_index = index, chunk_type = Paragraph,
                         char_start = start, char_end = end\<rparr>])
             end (Suc index))"

definition paragraphChunkWithMeta :: "jsstring \<Rightarrow> chunk list" where
  "paragraphChunkWithMeta text = paragraph_loop text (split_nn text) [] 0 0"

text \<open>
  \<^verbatim>\<open>
  function recursiveChunkWithMeta(text, { maxChars = 1500, overlap = 200 } = {}) {
    const parts = text.split("\n\n");
    const chunks = [];
    let current = "";
    let start = 0;
    for (const part of parts) {
      if ((current + part).length <= maxChars) {
        current += part + "\n\n";
      } else {
        const cleaned = cleanText(current);
        if (cleaned) {
          chunks.push({ chunk_text: cleaned, char_start: start,
                        char_end: start + cleaned.length, chunk_type: "recursive" });
        }
        start += Math.max(0, current.length - overlap);
        current = part + "\n\n";
      }
    }
    if (current.trim()) {
      const cleaned = cleanText(current);
      chunks.push({ chunk_text: cleaned, char_start: start,
                    char_end: start + cleaned.length, chunk_type: "recursive" });
    }
    return chunks.map((c, i) => ({ ...c, chunk_index: i }));
  }
  \<close>
  The records pushed inside the loop have no \<open>chunk_index\<close> yet; the model gives the field the
  value 0 there, and the final \<open>map\<close> overwrites it in every record.
\<close>

definition recursive_chunk :: "jsstring \<Rightarrow> int \<Rightarrow> chunk" where
  "recursive_chunk cleaned start =
     \<lparr>chunk_text = cleaned, chunk_index = 0, chunk_type = Recursive,
      char_start = start, char_end = start + int (length cleaned)\<rparr>"

fun recursive_loop :: "int \<Rightarrow> int \<Rightarrow> jsstring list \<Rightarrow> chunk list \<Rightarrow> jsstring \<Rightarrow> int \<Rightarrow> chunk list" where
  "recursive_loop maxChars overlap [] chunks current start =
     (if trim current \<noteq> [] then chunks @ [recursive_chunk (cleanText current) start]
      else chunks)"
| "recursive_loop maxChars overlap (part # parts) chunks current start =
     (if int (length (current @ part)) \<le> maxChars then
        recursive_loop maxChars overlap parts chunks (current @ part @ [0x0A, 0x0A]) start
      else
        let cleaned = cleanText current;
            chunks' = (if cleaned \<noteq> [] then chunks @ [recursive_chunk cleaned start] else chunks)
        in recursive_loop maxChars overlap parts chunks'
             (part @ [0x0A, 0x0A]) (start + max 0 (int (length current) - overlap)))"

definition with_index :: "chunk list \<Rightarrow> chunk list" where
  "with_index chunks = map (\<lambda>(c, i). c\<lparr>chunk_index := i\<rparr>) (zip chunks [0..<length chunks])"

definition recursiveChunkWithMeta :: "jsstring \<Rightarrow> int \<Rightarrow> int \<Rightarrow> chunk list" where
  "recursiveChunkWithMeta text maxChars overlap =
     with_index (recursive_loop maxChars overlap (split_nn text) [] [] 0)"

text \<open>
  \<^verbatim>\<open>
  async function hybridChunkWithMeta(text) {
    const base = recursiveChunkWithMeta(text, { maxChars: 1500, overlap: 200 });
    const merged = [];
    let current = base[0];
    for (let i = 1; i < base.length; i++) {
      const next = base[i];
      if (current.chunk_text.length + next.chunk_text.length < 1800) {
        current = { ...current, chunk_text: current.chunk_text + " " + next.chunk_text,
                    char_end: next.char_end, chunk_type: "hybrid" };
      } else {
        merged.push(current);
        current = next;
      }
    }
    merged.push(current);
    return merged.map((c, i) => ({ ...c, chunk_index: i, chunk_type: "hybrid" }));
  }
  \<close>
  When \<open>base\<close> is empty, \<open>base[0]\<close> is \<open>undefined\<close>, the loop body never runs and
  \<open>undefined\<close> is pushed; spreading it gives an object with the two fields
  \<open>chunk_index\<close> and \<open>chunk_type\<close> only. \<open>merged\<close> therefore holds optional chunks
  (\<open>None\<close> for \<open>undefined\<close>), and a returned object is either a full chunk record or
  one without text and offsets.
\<close>

datatype chunk_object = Full chunk | IndexOnly nat chunk_type

fun hybrid_merge :: "chunk \<Rightarrow> chunk list \<Rightarrow> chunk list \<Rightarrow> chunk list" where
  "hybrid_merge current [] merged = merged @ [current]"
| "hybrid_merge current (next # rest) merged =
     (if length (chunk_text current) + length (chunk_text next) < 1800 then
        hybrid_merge
          (current\<lparr>chunk_text := chunk_text current @ [0x20] @ chunk_text next,
                    char_end := char_end next, chunk_type := Hybrid\<rparr>)
          rest merged
      else hybrid_merge next rest (merged @ [current]))"

definition hybridChunkWithMeta :: "jsstring \<Rightarrow> chunk_object list" where
  "hybridChunkWithMeta text =
     (let base = recursiveChunkWithMeta text 1500 200;
          merged = (case base of
                      [] \<Rightarrow> [None]
                    | current # rest \<Rightarrow> map Some (hybrid_merge current rest []))
      in map (\<lambda>(c, i). case c of
                          None \<Rightarrow> IndexOnly i Hybrid
                        | Some c \<Rightarrow> Full (c\<lparr>chunk_index := i, chunk_type := Hybrid\<rparr>))
             (zip merged [0..<length merged]))"

section \<open>Literals\<close>

text \<open>An ASCII literal as a JavaScript string.\<close>

definition js :: "string \<Rightarrow> jsstring" where
  "js s = map (\<lambda>c. of_nat (of_char c)) s"

section \<open>The store\<close>

text \<open>
  The tables \<open>documents\<close> and \<open>chunks\<close> of the database, the bucket \<open>documents\<close> of
  the object storage (the paths of its objects) and the jobs added to the queue
  \<open>pdf-processing\<close>. Identifiers are assigned by the database.
  Columns that an insert leaves out are \<open>None\<close>. JavaScript numbers are modelled as reals:
  rounding and overflow of IEEE doubles are not modelled.
\<close>

type_synonym embedding = "real list"
type_synonym bytes = "8 word list"

record document =
  d_id :: nat
  d_user_id :: nat
  d_file_name :: jsstring
  d_storage_path :: jsstring
  d_file_hash :: jsstring

record chunk_row =
  c_id :: nat
  c_document_id :: nat
  c_chunk_text :: jsstring
  c_embedding :: embedding
  c_token_count :: nat
  c_chunk_index :: "nat option"
  c_chunk_type :: "chunk_type option"
  c_char_start :: "int option"
  c_char_end :: "int option"

record job =
  j_filePath :: jsstring
  j_documentId :: nat
  j_userId :: nat

record store =
  documents :: "document list"
  chunks :: "chunk_row list"
  objects :: "jsstring list"
  jobs :: "job list"

text \<open>A fresh identifier: one more than the largest in use.\<close>

definition fresh_id :: "nat list \<Rightarrow> nat" where
  "fresh_id ids = Suc (fold max ids 0)"

section \<open>Similarity\<close>




section \<open>Self-correction: context relevance\<close>







section \<open>Faithfulness\<close>




section \<open>Retrieval and the answer pipeline\<close>

















section \<open>Document classification\<close>

text \<open>
  A case-insensitive regular expression without the \<open>u\<close> flag compares characters after
  \<open>toUpperCase\<close>, and never lets a character outside ASCII match one inside. For the ASCII
  words searched below, a character matches a letter when it is that letter in either case.
\<close>

definition to_upper_ascii :: "jschar \<Rightarrow> jschar" where
  "to_upper_ascii c = (if 0x61 \<le> c \<and> c \<le> 0x7A then c - 0x20 else c)"

definition test_ci :: "jsstring \<Rightarrow> jsstring \<Rightarrow> bool" where
  "test_ci pat text \<longleftrightarrow>
     list_ex (\<lambda>i. map to_upper_ascii (take (length pat) (drop i text)) = map to_upper_ascii pat)
       [0..<Suc (length text)]"

datatype doc_type = ShortStructured | Resume | LongStructured | Legal | Generic

text \<open>
  \<^verbatim>\<open>
  function classifyDocument(text, metadata = {}) {
    const pages = metadata.pages || 1;
    const paragraphs = text.split("\n\n");
    const avgParaLength =
      paragraphs.reduce((a, p) => a + p.length, 0) / Math.max(1, paragraphs.length);
    if (pages <= 2 && avgParaLength < 500) return "short_structured";
    if (/resume|curriculum vitae|experience/i.test(text)) return "resume";
    if (/table of contents|chapter/i.test(text)) return "long_structured";
    if (/legal|hereby|whereas/i.test(text)) return "legal";
    return "generic";
  }
  \<close>
\<close>

definition classifyDocument :: "jsstring \<Rightarrow> nat \<Rightarrow> doc_type" where
  "classifyDocument text metadata_pages =
     (let pages = (if metadata_pages = 0 then 1 else metadata_pages);
          paragraphs = split_nn text;
          avgParaLength = real (foldl (\<lambda>a p. a + length p) 0 paragraphs)
                            / real (max 1 (length paragraphs))
      in if pages \<le> 2 \<and> avgParaLength < 500 then ShortStructured
         else if test_ci (js ''resume'') text \<or> test_ci (js ''curriculum vitae'') text
                 \<or> test_ci (js ''experience'') text then Resume
         else if test_ci (js ''table of contents'') text \<or> test_ci (js ''chapter'') text
           then LongStructured
         else if test_ci (js ''legal'') text \<or> test_ci (js ''hereby'') text
                 \<or> test_ci (js ''whereas'') text then Legal
         else Generic)"

section \<open>Ingestion of one document\<close>

text \<open>
  The collaborators of the worker: the PDF parser (\<open>None\<close>: it throws; the text and the page
  count it returns are already defaulted to \<open>""\<close> and 0), the embedding model, which
  throws (\<open>None\<close>) or returns a vector, and the insert into \<open>chunks\<close>, which may return
  an error for a row.
\<close>

record worker_env =
  parsePdf :: "bytes \<Rightarrow> (jsstring \<times> nat) option"
  embed :: "jsstring \<Rightarrow> embedding option"
  insert_error :: "chunk_row \<Rightarrow> bool"

datatype log_entry = InsertError | PdfProcessingError | FinishedDocument | InlineProcessingFailed

text \<open>
  \<open>s.split(/\s+/).length\<close>: one more than the number of whitespace runs in \<open>s\<close>.
\<close>

definition token_count :: "jsstring \<Rightarrow> nat" where
  "token_count s = Suc (length (filter is_ws (collapse_ws s)))"

definition insert_chunk :: "worker_env \<Rightarrow> chunk_row \<Rightarrow> store \<Rightarrow> store option" where
  "insert_chunk env r st =
     (if insert_error env r then None
      else Some (st\<lparr>chunks := chunks st @ [r\<lparr>c_id := fresh_id (map c_id (chunks st))\<rparr>]\<rparr>))"

text \<open>
  \<^verbatim>\<open>
    for (const chunk of chunksWithMeta) {
      const embedding = await embedder(chunk.chunk_text, { pooling: "mean", normalize: true });
      const { error } = await supabase.from("chunks").insert({
        document_id: documentId,
        chunk_text: chunk.chunk_text,
        embedding: Array.from(embedding.data),
        token_count: chunk.chunk_text.split(/\s+/).length,
        chunk_index: chunk.chunk_index,
        chunk_type: chunk.chunk_type,
        char_start: chunk.char_start,
        char_end: chunk.char_end,
      });
      if (error) console.error("Insert error:", error);
    }
  \<close>
  The loop runs inside the \<open>try\<close> block of the whole function: an exception in it
  leaves the loop. The embedder may throw; for a record without \<open>chunk_text\<close>, whatever
  the embedder does with \<open>undefined\<close>, \<open>chunk.chunk_text.split\<close> throws before the insert.
  The result is the new store, the log, and whether the loop ran to its end.
\<close>

fun insert_loop ::
  "worker_env \<Rightarrow> nat \<Rightarrow> chunk_object list \<Rightarrow> store \<Rightarrow> log_entry list
   \<Rightarrow> store \<times> log_entry list \<times> bool" where
  "insert_loop env documentId [] st lg = (st, lg, True)"
| "insert_loop env documentId (IndexOnly i t # rest) st lg = (st, lg, False)"
| "insert_loop env documentId (Full chunk # rest) st lg =
     (case embed env (chunk_text chunk) of
        None \<Rightarrow> (st, lg, False)
      | Some embedding \<Rightarrow>
          (case insert_chunk env
                  \<lparr>c_id = 0, c_document_id = documentId, c_chunk_text = chunk_text chunk,
                   c_embedding = embedding, c_token_count = token_count (chunk_text chunk),
                   c_chunk_index = Some (chunk_index chunk),
                   c_chunk_type = Some (chunk_type chunk),
                   c_char_start = Some (char_start chunk),
                   c_char_end = Some (char_end chunk)\<rparr> st of
             None \<Rightarrow> insert_loop env documentId rest st (lg @ [InsertError])
           | Some st' \<Rightarrow> insert_loop env documentId rest st' lg))"

text \<open>
  \<^verbatim>\<open>
  async function processPdfBufferAndInsert(fileBuffer, documentId, filePathForLog = null) {
    const embedder = await embedderPromise;
    try {
      const pdfData = await parsePdf(fileBuffer);
      const docType = classifyDocument(pdfData.text, { pages: pdfData.numpages });
      let chunksWithMeta;
      if (docType === "short_structured" || docType === "resume") {
        chunksWithMeta = paragraphChunkWithMeta(pdfData.text);
      } else {
        chunksWithMeta = await hybridChunkWithMeta(pdfData.text);
      }
      for (const chunk of chunksWithMeta) { ... }
      console.log(`Finished document ${documentId}`);
    } catch (err) {
      console.error("PDF processing error for", filePathForLog || documentId, ":",
                    err?.message || err);
    }
  }
  \<close>
\<close>

definition processPdfBufferAndInsert ::
  "worker_env \<Rightarrow> bytes \<Rightarrow> nat \<Rightarrow> store \<Rightarrow> store \<times> log_entry list" where
  "processPdfBufferAndInsert env fileBuffer documentId st =
     (case parsePdf env fileBuffer of
        None \<Rightarrow> (st, [PdfProcessingError])
      | Some (text, numpages) \<Rightarrow>
          (let docType = classifyDocument text numpages;
               chunksWithMeta =
                 (if docType = ShortStructured \<or> docType = Resume
                  then map Full (paragraphChunkWithMeta text)
                  else hybridChunkWithMeta text);
               (st', lg, finished) = insert_loop env documentId chunksWithMeta st []
           in (st', lg @ [if finished then FinishedDocument else PdfProcessingError])))"

section \<open>Upload\<close>

text \<open>
  \<open>origName.match(/(\.[^.]+)$/)?.[1] || ''\<close>: the last dot of the name with the characters
  after it, when there is a dot and at least one character follows it.
\<close>

definition ext_of :: "jsstring \<Rightarrow> jsstring" where
  "ext_of origName =
     (let tail = rev (takeWhile (\<lambda>c. c \<noteq> 0x2E) (rev origName))
      in if tail \<noteq> [] \<and> length tail < length origName then 0x2E # tail else [])"

record upload_file =
  filepath :: jsstring
  originalFilename :: "jsstring option"
  fileContent :: bytes

text \<open>
  The collaborators of the upload handler: the SHA-256 digest in hexadecimal, a storage error
  whose message does not contain "already exists" (\<open>Some\<close> its message), an error of the
  insert into \<open>documents\<close>, whether the queue is reachable, and the collaborators of the
  inline processing.
\<close>

record upload_env =
  sha256_hex :: "bytes \<Rightarrow> jsstring"
  storage_error :: "jsstring option"
  insert_document_error :: "jsstring option"
  queue_ready :: bool
  inline_env :: worker_env

record upload_result =
  u_fileName :: "jsstring option"
  u_documentId :: "nat option"
  u_storagePath :: "jsstring option"
  u_queued :: "bool option"
  u_note :: "jsstring option"
  u_error :: "jsstring option"

text \<open>
  The inline fallback, started without being awaited:
  \<^verbatim>\<open>
    (async () => {
      try {
        const embedder = await embedderPromise;
        const pdfData = await parsePdf(fileContent);
        const chunks = pdfData.text.split('\n\n').map(cleanText).filter(Boolean);
        for (const chunk of chunks) {
          const embedding = await embedder(chunk, { pooling: 'mean', normalize: true });
          await supabaseServer.from('chunks').insert({
            document_id: document.id, chunk_text: chunk,
            embedding: Array.from(embedding.data), token_count: chunk.split(/\s+/).length,
          });
        }
      } catch (e) { console.error('Inline processing failed:', e); }
    })();
  \<close>
  The model runs it to its end within the step of the upload. An error returned by the insert
  is not looked at.
\<close>

fun inline_loop :: "worker_env \<Rightarrow> nat \<Rightarrow> jsstring list \<Rightarrow> store \<Rightarrow> store \<times> bool" where
  "inline_loop env documentId [] st = (st, True)"
| "inline_loop env documentId (chunk # rest) st =
     (case embed env chunk of
        None \<Rightarrow> (st, False)
      | Some embedding \<Rightarrow>
          (case insert_chunk env
                  \<lparr>c_id = 0, c_document_id = documentId, c_chunk_text = chunk,
                   c_embedding = embedding, c_token_count = token_count chunk,
                   c_chunk_index = None, c_chunk_type = None,
                   c_char_start = None, c_char_end = None\<rparr> st of
             None \<Rightarrow> inline_loop env documentId rest st
           | Some st' \<Rightarrow> inline_loop env documentId rest st'))"

definition inline_processing :: "worker_env \<Rightarrow> bytes \<Rightarrow> nat \<Rightarrow> store \<Rightarrow> store \<times> log_entry list" where
  "inline_processing env content documentId st =
     (case parsePdf env content of
        None \<Rightarrow> (st, [InlineProcessingFailed])
      | Some (text, numpages) \<Rightarrow>
          (let cs = filter (\<lambda>c. c \<noteq> []) (map cleanText (split_nn text));
               (st', finished) = inline_loop env documentId cs st
           in (st', if finished then [] else [InlineProcessingFailed])))"

text \<open>
  The body of the loop over the uploaded files.
  \<^verbatim>\<open>
    const fileContent = fs.readFileSync(file.filepath);
    const hash = createHash('sha256').update(fileContent).digest('hex');
    const origName = file.originalFilename || 'upload.pdf';
    const ext = origName.match(/(\.[^.]+)$/)?.[1] || '';
    const storagePath = `uploads/${hash}${ext}`;
    const { data: existing } = await supabaseServer.from('documents').select('id')
      .eq('storage_path', storagePath).eq('user_id', user.id).limit(1);
    if (existing?.length) {
      results.push({ fileName: origName, documentId: existing[0].id, storagePath,
                     queued: false, note: 'Already uploaded by you' });
      continue;
    }
    const { data: storageData, error: storageError } = await supabaseServer.storage
      .from('documents').upload(storagePath, fileContent,
                                { upsert: false, contentType: 'application/pdf' });
    if (storageError && !storageError.message?.toLowerCase().includes('already exists')) {
      throw new Error(storageError.message);
    }
    const finalStoragePath = storageData?.path || storagePath;
    const { error: insertErr } = await supabaseServer.from('documents').insert({
      user_id: user.id, file_name: origName, storage_path: finalStoragePath, file_hash: hash });
    if (insertErr) throw new Error(insertErr.message);
    const { data: document, error: fetchErr } = await supabaseServer.from('documents')
      .select('id').eq('storage_path', finalStoragePath).eq('user_id', user.id)
      .limit(1).single();
    if (fetchErr || !document) throw new Error('Failed to fetch inserted document');
    const qInfo = await createQueue();
    if (qInfo?.queue) {
      await qInfo.queue.add('pdf-job', { filePath: file.filepath, documentId: document.id,
                                         userId: user.id });
      results.push({ fileName: origName, documentId: document.id,
                     storagePath: finalStoragePath, queued: true });
    } else {
      results.push({ fileName: origName, documentId: document.id,
                     storagePath: finalStoragePath, queued: false,
                     note: 'Redis unavailable - inline processing' });
      (async () => { ... })();
    }
  } catch (fileErr) {
    results.push({ fileName: file.originalFilename, error: fileErr.message });
  }
  \<close>
  \<open>orig_name\<close> is \<open>origName\<close> and \<open>storage_path_of\<close> is \<open>storagePath\<close>. With
  \<open>upsert: false\<close> the storage refuses a path that holds an object, with an "already
  exists" error (then \<open>storageData\<close> is null), and otherwise stores the object and returns
  the path it was given: \<open>finalStoragePath\<close> is \<open>storagePath\<close> either way. The dash in the
  note of the inline fallback is U+2013.
\<close>

definition select_document :: "store \<Rightarrow> jsstring \<Rightarrow> nat \<Rightarrow> document list" where
  "select_document st storagePath user_id =
     take 1 (filter (\<lambda>d. d_storage_path d = storagePath \<and> d_user_id d = user_id) (documents st))"

definition orig_name :: "upload_file \<Rightarrow> jsstring" where
  "orig_name file =
     (case originalFilename file of
        None \<Rightarrow> js ''upload.pdf''
      | Some n \<Rightarrow> if n = [] then js ''upload.pdf'' else n)"

definition storage_path_of :: "upload_env \<Rightarrow> upload_file \<Rightarrow> jsstring" where
  "storage_path_of env file =
     js ''uploads/'' @ sha256_hex env (fileContent file) @ ext_of (orig_name file)"

definition failed_upload :: "upload_file \<Rightarrow> jsstring \<Rightarrow> upload_result" where
  "failed_upload file message =
     \<lparr>u_fileName = originalFilename file, u_documentId = None, u_storagePath = None,
      u_queued = None, u_note = None, u_error = Some message\<rparr>"

definition upload_one ::
  "upload_env \<Rightarrow> nat \<Rightarrow> upload_file \<Rightarrow> store \<Rightarrow> upload_result \<times> store" where
  "upload_one env user_id file st =
     (let hash = sha256_hex env (fileContent file);
          origName = orig_name file;
          storagePath = storage_path_of env file
      in case select_document st storagePath user_id of
           existing # _ \<Rightarrow>
             (\<lparr>u_fileName = Some origName, u_documentId = Some (d_id existing),
               u_storagePath = Some storagePath, u_queued = Some False,
               u_note = Some (js ''Already uploaded by you''), u_error = None\<rparr>, st)
         | [] \<Rightarrow>
             (case storage_error env of
                Some message \<Rightarrow> (failed_upload file message, st)
              | None \<Rightarrow>
                  (let st1 = (if storagePath \<in> set (objects st) then st
                              else st\<lparr>objects := objects st @ [storagePath]\<rparr>);
                       finalStoragePath = storagePath
                   in case insert_document_error env of
                        Some message \<Rightarrow> (failed_upload file message, st1)
                      | None \<Rightarrow>
                          (let st2 = st1\<lparr>documents := documents st1 @
                                         [\<lparr>d_id = fresh_id (map d_id (documents st1)),
                                           d_user_id = user_id, d_file_name = origName,
                                           d_storage_path = finalStoragePath,
                                           d_file_hash = hash\<rparr>]\<rparr>
                           in case select_document st2 finalStoragePath user_id of
                                [] \<Rightarrow> (failed_upload file (js ''Failed to fetch inserted document''), st2)
                              | document # _ \<Rightarrow>
                                  if queue_ready env then
                                    (\<lparr>u_fileName = Some origName, u_documentId = Some (d_id document),
                                      u_storagePath = Some finalStoragePath, u_queued = Some True,
                                      u_note = None, u_error = None\<rparr>,
                                     st2\<lparr>jobs := jobs st2 @
                                           [\<lparr>j_filePath = filepath file,
                                             j_documentId = d_id document,
                                             j_userId = user_id\<rparr>]\<rparr>)
                                  else
                                    (\<lparr>u_fileName = Some origName, u_documentId = Some (d_id document),
                                      u_storagePath = Some finalStoragePath, u_queued = Some False,
                                      u_note = Some (js ''Redis unavailable '' @ [0x2013] @ js '' inline processing''),
                                      u_error = None\<rparr>,
                                     fst (inline_processing (inline_env env) (fileContent file)
                                            (d_id document) st2))))))"

text \<open>The loop over the files of one request, by one authenticated user.\<close>

fun upload_files ::
  "upload_env \<Rightarrow> nat \<Rightarrow> upload_file list \<Rightarrow> store \<Rightarrow> upload_result list \<times> store" where
  "upload_files env user_id [] st = ([], st)"
| "upload_files env user_id (file # files) st =
     (let (r, st1) = upload_one env user_id file st;
          (rs, st2) = upload_files env user_id files st1
      in (r # rs, st2))"

section \<open>Deleting a document\<close>

text \<open>
  \<^verbatim>\<open>
  if (req.method === 'DELETE') {
    const { documentId } = req.body;
    if (!documentId) return res.status(400).json({ error: 'Missing documentId' });
    try {
      const { data: docs, error: fetchErr } = await supabaseServer.from('documents')
        .select('id, storage_path').eq('id', documentId).eq('user_id', user.id).limit(1);
      if (fetchErr || !docs?.length) {
        return res.status(404).json({ error: 'Document not found' });
      }
      const doc = docs[0];
      await supabaseServer.from('chunks').delete().eq('document_id', documentId);
      await supabaseServer.from('documents').delete().eq('id', documentId);
      if (doc.storage_path) {
        await supabaseServer.storage.from('documents').remove([doc.storage_path]);
      }
      return res.json({ success: true });
    } catch (err) {
      return res.status(500).json({ error: 'Failed to delete document' });
    }
  }
  \<close>
  The handler returns its response, the new store and the operations it performed on the
  store, in order. The identifier 0, like a missing one, is falsy. \<open>fetch_error\<close> says that
  the select returned an error.
\<close>

datatype store_op = DeleteChunks nat | DeleteDocument nat | RemoveObject jsstring

datatype delete_response =
    DeleteUnauthorized
  | MissingDocumentId
  | DocumentNotFound
  | DeleteSuccess

definition delete_document ::
  "bool \<Rightarrow> store \<Rightarrow> nat option \<Rightarrow> nat option \<Rightarrow> delete_response \<times> store \<times> store_op list" where
  "delete_document fetch_error st user documentId =
     (case user of
        None \<Rightarrow> (DeleteUnauthorized, st, [])
      | Some user_id \<Rightarrow>
          (case documentId of
             None \<Rightarrow> (MissingDocumentId, st, [])
           | Some doc_id \<Rightarrow>
               if doc_id = 0 then (MissingDocumentId, st, [])
               else
                 (let docs = take 1 (filter (\<lambda>d. d_id d = doc_id \<and> d_user_id d = user_id)
                                       (documents st))
                  in if fetch_error \<or> docs = [] then (DocumentNotFound, st, [])
                     else
                       (let doc = hd docs;
                            st1 = st\<lparr>chunks := filter (\<lambda>c. c_document_id c \<noteq> doc_id) (chunks st)\<rparr>;
                            st2 = st1\<lparr>documents := filter (\<lambda>d. d_id d \<noteq> doc_id) (documents st1)\<rparr>
                        in if d_storage_path doc \<noteq> [] then
                             (DeleteSuccess,
                              st2\<lparr>objects := filter (\<lambda>p. p \<noteq> d_storage_path doc) (objects st2)\<rparr>,
                              [DeleteChunks doc_id, DeleteDocument doc_id,
                               RemoveObject (d_storage_path doc)])
                           else (DeleteSuccess, st2, [DeleteChunks doc_id, DeleteDocument doc_id])))))"

section \<open>Notions used by the properties\<close>

subsection \<open>Words of a text\<close>

text \<open>
  The words of a text are its maximal runs of non-whitespace characters; \<open>join_sp\<close> puts
  one space between consecutive words. They state what a normalized text is, independently of
  the way \<open>cleanText\<close> computes it.
\<close>

function ws_words :: "jsstring \<Rightarrow> jsstring list" where
  "ws_words s =
     (case dropWhile is_ws s of
        [] \<Rightarrow> []
      | c # cs \<Rightarrow> (c # takeWhile (\<lambda>x. \<not> is_ws x) cs) # ws_words (dropWhile (\<lambda>x. \<not> is_ws x) cs))"
  by pat_completeness auto
termination
proof (relation "measure length", goal_cases)
  case 1
  show ?case by simp
next
  case (2 s c cs)
  have "length (dropWhile (\<lambda>x. \<not> is_ws x) cs) \<le> length cs"
    by (rule length_dropWhile_le)
  also have "length cs < length (dropWhile is_ws s)"
    using 2 by simp
  also have "\<dots> \<le> length s"
    by (rule length_dropWhile_le)
  finally show ?case by simp
qed

declare ws_words.simps [simp del]

fun join_sp :: "jsstring list \<Rightarrow> jsstring" where
  "join_sp [] = []"
| "join_sp [w] = w"
| "join_sp (w # v # ws) = w @ [0x20] @ join_sp (v # ws)"

fun no_ws_pair :: "jsstring \<Rightarrow> bool" where
  "no_ws_pair (a # b # cs) \<longleftrightarrow> \<not> (is_ws a \<and> is_ws b) \<and> no_ws_pair (b # cs)"
| "no_ws_pair _ \<longleftrightarrow> True"

text \<open>A word is a non-empty string without whitespace.\<close>

definition word_ok :: "jsstring \<Rightarrow> bool" where
  "word_ok w \<longleftrightarrow> w \<noteq> [] \<and> (\<forall>c \<in> set w. \<not> is_ws c)"

text \<open>
  The normalized text as the specification words it, read on the input itself: the runs of
  whitespace of the input separate its words, the null and control characters are removed
  from each word, and the words that remain are joined by single spaces.
\<close>

definition normalized_as_specified :: "jsstring \<Rightarrow> jsstring" where
  "normalized_as_specified s =
     join_sp (filter (\<lambda>w. w \<noteq> []) (map (filter (\<lambda>c. 0x1F < c)) (ws_words s)))"

subsection \<open>Ownership of retrieved rows\<close>


subsection \<open>Means of similarities\<close>







section \<open>Example data\<close>

text \<open>
  Small stores and collaborators on which the theorems below are evaluated. The digest, the
  parser and the models are stand-ins: the digest of the example returns the same string for
  every content, the parser returns the three paragraphs A, B and C, and the embedding
  model of the worker throws on B.
\<close>

definition example_store :: store where
  "example_store =
     \<lparr>documents =
        [\<lparr>d_id = 1, d_user_id = 1, d_file_name = js ''a.pdf'',
          d_storage_path = js ''uploads/aa.pdf'', d_file_hash = js ''aa''\<rparr>,
         \<lparr>d_id = 2, d_user_id = 2, d_file_name = js ''b.pdf'',
          d_storage_path = js ''uploads/bb.pdf'', d_file_hash = js ''bb''\<rparr>],
      chunks =
        [\<lparr>c_id = 1, c_document_id = 1, c_chunk_text = js ''alpha'', c_embedding = [1],
          c_token_count = 1, c_chunk_index = Some 0, c_chunk_type = Some Paragraph,
          c_char_start = Some 0, c_char_end = Some 5\<rparr>,
         \<lparr>c_id = 2, c_document_id = 2, c_chunk_text = js ''beta'', c_embedding = [1],
          c_token_count = 1, c_chunk_index = Some 0, c_chunk_type = Some Paragraph,
          c_char_start = Some 0, c_char_end = Some 4\<rparr>],
      objects = [js ''uploads/aa.pdf'', js ''uploads/bb.pdf''],
      jobs = []\<rparr>"

definition empty_store :: store where
  "empty_store = \<lparr>documents = [], chunks = [], objects = [], jobs = []\<rparr>"

definition example_worker_env :: worker_env where
  "example_worker_env =
     \<lparr>parsePdf = (\<lambda>b. Some (js ''A'' @ [0x0A, 0x0A] @ js ''B'' @ [0x0A, 0x0A] @ js ''C'', 1)),
      embed = (\<lambda>t. if t = js ''B'' then None else Some [1]),
      insert_error = (\<lambda>r. False)\<rparr>"

definition example_upload_env :: upload_env where
  "example_upload_env =
     \<lparr>sha256_hex = (\<lambda>b. js ''5dd3''), storage_error = None, insert_document_error = None,
      queue_ready = True, inline_env = example_worker_env\<rparr>"

definition example_file :: "jsstring \<Rightarrow> upload_file" where
  "example_file name = \<lparr>filepath = js ''/tmp/f'', originalFilename = Some name, fileContent = [1, 2, 3]\<rparr>"




section \<open>Facts about the similarity\<close>



section \<open>Properties of the text normalizer\<close>

lemma ws_words_Nil: "dropWhile is_ws s = [] \<Longrightarrow> ws_words s = []"
  by (subst ws_words.simps) (simp only: list.case)

lemma ws_words_Cons:
  "dropWhile is_ws s = c # cs \<Longrightarrow>
   ws_words s = (c # takeWhile (\<lambda>x. \<not> is_ws x) cs) # ws_words (dropWhile (\<lambda>x. \<not> is_ws x) cs)"
  by (subst ws_words.simps) (simp only: list.case)

lemma ws_words_ok: "\<forall>w \<in> set (ws_words s). word_ok w"
proof (induction s rule: ws_words.induct)
  case (1 s)
  show ?case
  proof (cases "dropWhile is_ws s")
    case Nil
    then show ?thesis by (simp only: ws_words_Nil) simp
  next
    case (Cons c cs)
    then have "\<not> is_ws c"
      using hd_dropWhile [of is_ws s] by simp
    moreover have "\<forall>x \<in> set (takeWhile (\<lambda>x. \<not> is_ws x) cs). \<not> is_ws x"
      by (auto dest: set_takeWhileD)
    ultimately have "word_ok (c # takeWhile (\<lambda>x. \<not> is_ws x) cs)"
      by (simp add: word_ok_def)
    with 1 [OF Cons] show ?thesis
      by (simp add: ws_words_Cons [OF Cons])
  qed
qed

lemma join_sp_Cons: "join_sp (w # ws) = (if ws = [] then w else w @ 0x20 # join_sp ws)"
  by (cases ws) simp_all

lemma join_sp_ends:
  assumes "\<forall>w \<in> set ws. word_ok w" and "ws \<noteq> []"
  shows "join_sp ws \<noteq> [] \<and> \<not> is_ws (hd (join_sp ws)) \<and> \<not> is_ws (last (join_sp ws))"
  using assms
proof (induction ws rule: join_sp.induct)
  case 1
  then show ?case by simp
next
  case (2 w)
  then show ?case by (auto simp: word_ok_def)
next
  case (3 w v ws)
  then show ?case by (auto simp: word_ok_def)
qed

lemma collapse_ws_plain_append:
  "\<forall>c \<in> set w. \<not> is_ws c \<Longrightarrow> collapse_ws (w @ r) = w @ collapse_ws r"
  by (induction w) auto

text \<open>The collapsed text after its leading whitespace.\<close>

lemma collapse_body:
  "collapse_ws (dropWhile is_ws s) =
     join_sp (ws_words s) @ (if ws_words s \<noteq> [] \<and> is_ws (last s) then [0x20] else [])"
proof (induction s rule: ws_words.induct)
  case (1 s)
  show ?case
  proof (cases "dropWhile is_ws s")
    case Nil
    then show ?thesis by (simp only: ws_words_Nil) simp
  next
    case (Cons c cs)
    let ?w = "c # takeWhile (\<lambda>x. \<not> is_ws x) cs"
    let ?r = "dropWhile (\<lambda>x. \<not> is_ws x) cs"
    have c: "\<not> is_ws c"
      using Cons hd_dropWhile [of is_ws s] by simp
    have w: "\<forall>x \<in> set ?w. \<not> is_ws x"
      using c by (auto dest: set_takeWhileD)
    have split: "dropWhile is_ws s = ?w @ ?r"
      using Cons by simp
    have words: "ws_words s = ?w # ws_words ?r"
      by (rule ws_words_Cons [OF Cons])
    have last_s: "last s = last (?w @ ?r)"
    proof -
      have "dropWhile is_ws s \<noteq> []"
        using Cons by simp
      then have "last (takeWhile is_ws s @ dropWhile is_ws s) = last (dropWhile is_ws s)"
        by (rule last_appendR)
      then have "last s = last (dropWhile is_ws s)"
        by (simp only: takeWhile_dropWhile_id)
      then show ?thesis
        by (simp only: split)
    qed
    have body: "collapse_ws (dropWhile is_ws s) = ?w @ collapse_ws ?r"
      unfolding split using w by (rule collapse_ws_plain_append)
    show ?thesis
    proof (cases ?r)
      case Nil
      have "ws_words [] = []"
        by (rule ws_words_Nil) simp
      with Nil have wr: "ws_words ?r = []"
        by (simp only:)
      have "last s \<in> set ?w"
        unfolding last_s Nil append_Nil2 by (rule last_in_set) simp
      then have nl: "\<not> is_ws (last s)"
        by (rule bspec [OF w])
      have body': "collapse_ws (dropWhile is_ws s) = ?w"
        using body by (simp only: Nil collapse_ws.simps(1) append_Nil2)
      have words': "ws_words s = [?w]"
        using words wr by (simp only:)
      show ?thesis
        unfolding body' words' using nl by simp
    next
      case r: (Cons x r')
      have x: "is_ws x"
        using r hd_dropWhile [of "\<lambda>x. \<not> is_ws x" cs] by force
      have dr: "dropWhile is_ws ?r = dropWhile is_ws r'"
        using r x by simp
      have "collapse_ws ?r = 0x20 # collapse_ws (dropWhile is_ws ?r)"
        using r x dr by simp
      also have "collapse_ws (dropWhile is_ws ?r) =
          join_sp (ws_words ?r) @ (if ws_words ?r \<noteq> [] \<and> is_ws (last ?r) then [0x20] else [])"
        using 1 [OF Cons] .
      finally have cr: "collapse_ws ?r =
          0x20 # join_sp (ws_words ?r) @ (if ws_words ?r \<noteq> [] \<and> is_ws (last ?r) then [0x20] else [])" .
      have last_r: "last s = last ?r"
        using last_s r by simp
      show ?thesis
      proof (cases "ws_words ?r")
        case Nil
        have "dropWhile is_ws ?r = []"
        proof (cases "dropWhile is_ws ?r")
          case (Cons y ys)
          from ws_words_Cons [OF this] Nil show ?thesis
            by (simp only: list.distinct)
        qed
        then have all: "\<forall>y \<in> set ?r. is_ws y"
          by (simp only: dropWhile_eq_Nil_conv)
        have "last ?r \<in> set ?r"
          by (rule last_in_set) (simp only: r list.distinct not_False_eq_True)
        then have "is_ws (last ?r)"
          by (rule bspec [OF all])
        then show ?thesis
          using body cr words Nil last_r by simp
      next
        case (Cons v vs)
        then show ?thesis
          using body cr words last_r by simp
      qed
    qed
  qed
qed

lemma trim_collapse: "trim (collapse_ws s) = join_sp (ws_words s)"
proof -
  let ?J = "join_sp (ws_words s)"
  let ?T = "if ws_words s \<noteq> [] \<and> is_ws (last s) then [0x20 :: jschar] else []"
  have ends: "ws_words s \<noteq> [] \<Longrightarrow> ?J \<noteq> [] \<and> \<not> is_ws (hd ?J) \<and> \<not> is_ws (last ?J)"
    using join_sp_ends [OF ws_words_ok] by blast
  have empty: "ws_words s = [] \<Longrightarrow> ?J = []"
    by simp
  have lead: "dropWhile is_ws (collapse_ws s) = collapse_ws (dropWhile is_ws s)"
  proof (cases s)
    case Nil
    then show ?thesis by simp
  next
    case (Cons c cs)
    show ?thesis
    proof (cases "is_ws c")
      case True
      have "dropWhile is_ws (?J @ ?T) = ?J @ ?T"
        using ends empty by (cases "ws_words s = []") (auto simp: neq_Nil_conv)
      then have "dropWhile is_ws (collapse_ws (dropWhile is_ws s)) = collapse_ws (dropWhile is_ws s)"
        using collapse_body [of s] by simp
      then show ?thesis
        using Cons True by (simp add: is_ws_def)
    next
      case False
      then have "hd (collapse_ws s) = c" "collapse_ws s \<noteq> []"
        using Cons by simp_all
      then have "dropWhile is_ws (collapse_ws s) = collapse_ws s"
        using False by (cases "collapse_ws s") auto
      then show ?thesis using Cons False by simp
    qed
  qed
  have "rev (dropWhile is_ws (rev (?J @ ?T))) = ?J"
  proof (cases "ws_words s = []")
    case True
    then show ?thesis by simp
  next
    case False
    with ends have "?J \<noteq> []" "\<not> is_ws (last ?J)" by simp_all
    then have "dropWhile is_ws (rev ?J) = rev ?J"
      by (cases ?J rule: rev_cases) auto
    then show ?thesis
      using False by (simp add: is_ws_def)
  qed
  then show ?thesis
    unfolding trim_def lead collapse_body .
qed

lemma set_ws_words: "w \<in> set (ws_words s) \<Longrightarrow> set w \<subseteq> set s"
proof (induction s arbitrary: w rule: ws_words.induct)
  case (1 s)
  show ?case
  proof (cases "dropWhile is_ws s")
    case Nil
    with 1(2) show ?thesis by (simp only: ws_words_Nil) simp
  next
    case (Cons c cs)
    have sub: "set (c # cs) \<subseteq> set s"
      using set_dropWhileD [of _ is_ws s] unfolding Cons by blast
    from 1(2) have "w = c # takeWhile (\<lambda>x. \<not> is_ws x) cs \<or>
        w \<in> set (ws_words (dropWhile (\<lambda>x. \<not> is_ws x) cs))"
      by (simp add: ws_words_Cons [OF Cons])
    then show ?thesis
    proof
      assume "w = c # takeWhile (\<lambda>x. \<not> is_ws x) cs"
      then have "set w \<subseteq> set (c # cs)"
        by (auto dest: set_takeWhileD)
      with sub show ?thesis by blast
    next
      assume "w \<in> set (ws_words (dropWhile (\<lambda>x. \<not> is_ws x) cs))"
      from 1(1) [OF Cons this]
      have "set w \<subseteq> set (dropWhile (\<lambda>x. \<not> is_ws x) cs)" .
      also have "\<dots> \<subseteq> set cs"
        by (auto dest: set_dropWhileD)
      finally show ?thesis using sub by auto
    qed
  qed
qed

lemma set_join_sp: "c \<in> set (join_sp ws) \<Longrightarrow> c = 0x20 \<or> (\<exists>w \<in> set ws. c \<in> set w)"
  by (induction ws rule: join_sp.induct) auto

lemma no_ws_pair_plain_append:
  "\<forall>c \<in> set w. \<not> is_ws c \<Longrightarrow> no_ws_pair (w @ x) = no_ws_pair x"
proof (induction w)
  case Nil
  show ?case by simp
next
  case (Cons a w)
  then show ?case by (cases "w @ x") auto
qed

lemma no_ws_pair_join_sp: "\<forall>w \<in> set ws. word_ok w \<Longrightarrow> no_ws_pair (join_sp ws)"
proof (induction ws rule: join_sp.induct)
  case 1
  show ?case by simp
next
  case (2 w)
  then have "no_ws_pair (w @ []) = no_ws_pair []"
    by (intro no_ws_pair_plain_append) (simp add: word_ok_def)
  then show ?case by simp
next
  case (3 w v ws)
  have ends: "join_sp (v # ws) \<noteq> [] \<and> \<not> is_ws (hd (join_sp (v # ws)))"
    using join_sp_ends [of "v # ws"] 3(2) by simp
  have "no_ws_pair (w @ 0x20 # join_sp (v # ws)) = no_ws_pair (0x20 # join_sp (v # ws))"
    using 3(2) by (intro no_ws_pair_plain_append) (simp add: word_ok_def)
  also have "\<dots> = no_ws_pair (join_sp (v # ws))"
    using ends by (cases "join_sp (v # ws)") auto
  finally show ?case using 3 by simp
qed

lemma strip_controls: "filter (\<lambda>c. \<not> is_c0 c) (filter (\<lambda>c. c \<noteq> 0) s) = filter (\<lambda>c. 0x1F < c) s"
proof -
  have "(c \<noteq> 0 \<and> \<not> is_c0 c) = (0x1F < c)" for c :: jschar
    unfolding is_c0_def by unat_arith
  then show ?thesis
    by (simp add: conj_commute)
qed

lemma cleanText_words: "cleanText s = join_sp (ws_words (filter (\<lambda>c. 0x1F < c) s))"
  unfolding cleanText_def strip_controls by (rule trim_collapse)

text \<open>
  Claim C7, as stated, fails on a run of whitespace made of control characters: the line feed
  between \<open>a\<close> and \<open>b\<close> is whitespace, and it is deleted with the control characters
  before whitespace is collapsed, so the two words are joined without a space.
\<close>

theorem cleanText_deletes_line_feed:
  "cleanText [0x61, 0x0A, 0x62] = [0x61, 0x62] \<and>
   is_ws 0x0A \<and>
   normalized_as_specified [0x61, 0x0A, 0x62] = [0x61, 0x20, 0x62]"
  by (simp add: cleanText_def trim_def normalized_as_specified_def is_ws_def is_c0_def
      ws_words.simps)

text \<open>
  Claim C7, amended. For every input string, \<open>cleanText\<close> returns the input with its null
  and C0 control characters (U+0000 to U+001F, tab, line feed and carriage return among them)
  removed, and every run of the whitespace that is left after this removal collapsed to a
  single space, with leading and trailing whitespace trimmed: the result is the words of the
  input without these characters, joined by single spaces; it has no character at or below
  U+001F, every whitespace character in it is a space, no two whitespace characters are
  adjacent, and it neither starts nor ends with whitespace. The function is total, and the
  empty input gives the empty output.
\<close>

theorem cleanText_normalizes:
  "cleanText s = join_sp (ws_words (filter (\<lambda>c. 0x1F < c) s)) \<and>
   (\<forall>c \<in> set (cleanText s). 0x1F < c \<and> (is_ws c \<longrightarrow> c = 0x20)) \<and>
   no_ws_pair (cleanText s) \<and>
   (cleanText s \<noteq> [] \<longrightarrow> \<not> is_ws (hd (cleanText s)) \<and> \<not> is_ws (last (cleanText s))) \<and>
   cleanText [] = []"
proof -
  let ?t = "filter (\<lambda>c. 0x1F < c) s"
  have ok: "\<forall>w \<in> set (ws_words ?t). word_ok w"
    by (rule ws_words_ok)
  have chars: "0x1F < c \<and> (is_ws c \<longrightarrow> c = 0x20)" if "c \<in> set (join_sp (ws_words ?t))" for c
  proof -
    from set_join_sp [OF that] show ?thesis
    proof
      assume "c = 0x20"
      then show ?thesis by simp
    next
      assume "\<exists>w \<in> set (ws_words ?t). c \<in> set w"
      then obtain w where w: "w \<in> set (ws_words ?t)" and c: "c \<in> set w"
        by blast
      from set_ws_words [OF w] c have "c \<in> set ?t" by blast
      moreover from ok w c have "\<not> is_ws c" by (auto simp: word_ok_def)
      ultimately show ?thesis by simp
    qed
  qed
  have ends: "join_sp (ws_words ?t) \<noteq> [] \<longrightarrow>
      \<not> is_ws (hd (join_sp (ws_words ?t))) \<and> \<not> is_ws (last (join_sp (ws_words ?t)))"
    using join_sp_ends [OF ok] by (cases "ws_words ?t") auto
  have empty: "cleanText [] = []"
    by (simp add: cleanText_def trim_def)
  show ?thesis
    unfolding cleanText_words [of s]
    using chars no_ws_pair_join_sp [OF ok] ends empty by blast
qed

theorem cleanText_normalizes_witness:
  "cleanText [0x20, 0x61, 0x09, 0x20, 0x20, 0x62, 0, 0x0A, 0x63, 0x20] = [0x61, 0x20, 0x62, 0x63] \<and>
   join_sp (ws_words (filter (\<lambda>c. 0x1F < c) [0x20, 0x61, 0x09, 0x20, 0x20, 0x62, 0, 0x0A, 0x63, 0x20]))
     = [0x61, 0x20, 0x62, 0x63] \<and>
   list_all (\<lambda>c. 0x1F < c) [0x61, 0x20, 0x62, 0x63 :: jschar] \<and>
   no_ws_pair [0x61, 0x20, 0x62, 0x63]"
  using cleanText_normalizes [of "[0x20, 0x61, 0x09, 0x20, 0x20, 0x62, 0, 0x0A, 0x63, 0x20]"]
  by (simp add: cleanText_def trim_def is_ws_def is_c0_def ws_words.simps)

section \<open>Properties of the chunking engine\<close>

lemma length_collapse_ws_le: "length (collapse_ws s) \<le> length s"
proof (induction s rule: collapse_ws.induct)
  case 1
  show ?case by simp
next
  case (2 c cs)
  have "length (dropWhile is_ws cs) \<le> length cs"
    by (rule length_dropWhile_le)
  with 2 show ?case by (auto simp: le_SucI)
qed

lemma length_trim_le: "length (trim s) \<le> length s"
proof -
  have "length (trim s) \<le> length (rev (dropWhile is_ws s))"
    unfolding trim_def using length_dropWhile_le [of is_ws "rev (dropWhile is_ws s)"] by simp
  also have "\<dots> \<le> length s"
    by (simp add: length_dropWhile_le)
  finally show ?thesis .
qed

lemma length_cleanText_le: "length (cleanText s) \<le> length s"
proof -
  have "length (cleanText s) \<le> length (filter (\<lambda>c. \<not> is_c0 c) (filter (\<lambda>c. c \<noteq> 0) s))"
    unfolding cleanText_def
    by (rule order_trans [OF length_trim_le length_collapse_ws_le])
  also have "\<dots> \<le> length (filter (\<lambda>c. c \<noteq> 0) s)"
    by (rule length_filter_le)
  also have "\<dots> \<le> length s"
    by (rule length_filter_le)
  finally show ?thesis .
qed

lemma cleanText_append_nn: "cleanText (s @ [0x0A, 0x0A]) = cleanText s"
  by (simp add: cleanText_def is_c0_def)

lemma split_nn_not_Nil: "split_nn s \<noteq> []"
  by (induction s rule: split_nn.induct) (auto split: list.splits)

lemma with_index_texts: "map chunk_text (with_index cs) = map chunk_text cs"
  unfolding with_index_def
  by (rule nth_equalityI) (auto)

lemma recursive_loop_bound:
  assumes "\<forall>p \<in> set parts. int (length (cleanText p)) \<le> B"
    and "\<forall>c \<in> set cks. int (length (chunk_text c)) \<le> B"
    and "int (length (cleanText current)) \<le> B"
    and "M \<le> B"
  shows "\<forall>c \<in> set (recursive_loop M ov parts cks current start). int (length (chunk_text c)) \<le> B"
  using assms(1,2,3)
proof (induction parts arbitrary: cks current start)
  case Nil
  then show ?case by (auto simp: recursive_chunk_def)
next
  case (Cons part parts)
  show ?case
  proof (cases "int (length (current @ part)) \<le> M")
    case True
    have "length (cleanText (current @ part @ [0x0A, 0x0A])) \<le> length (current @ part)"
      using cleanText_append_nn [of "current @ part"] length_cleanText_le [of "current @ part"]
      by simp
    with True assms(4) have "int (length (cleanText (current @ part @ [0x0A, 0x0A]))) \<le> B"
      by linarith
    with Cons.IH [of cks "current @ part @ [0x0A, 0x0A]" start] Cons.prems True
    show ?thesis by simp
  next
    case False
    have "cleanText (part @ [0x0A, 0x0A]) = cleanText part"
      by (rule cleanText_append_nn)
    then have cur: "int (length (cleanText (part @ [0x0A, 0x0A]))) \<le> B"
      using Cons.prems(1) by simp
    let ?pushed = "if cleanText current \<noteq> [] then cks @ [recursive_chunk (cleanText current) start] else cks"
    have "\<forall>c \<in> set ?pushed. int (length (chunk_text c)) \<le> B"
      using Cons.prems(2,3) by (auto simp: recursive_chunk_def)
    with Cons.IH [of ?pushed "part @ [0x0A, 0x0A]"] Cons.prems(1) cur False
    show ?thesis by (simp add: Let_def)
  qed
qed

lemma recursive_loop_keeps:
  "set cks \<subseteq> set (recursive_loop M ov parts cks current start)"
proof (induction parts arbitrary: cks current start)
  case Nil
  show ?case by auto
next
  case (Cons part parts)
  show ?case
  proof (cases "int (length (current @ part)) \<le> M")
    case True
    with Cons.IH [of cks "current @ part @ [0x0A, 0x0A]" start] show ?thesis by simp
  next
    case False
    let ?pushed = "if cleanText current \<noteq> [] then cks @ [recursive_chunk (cleanText current) start] else cks"
    have "set cks \<subseteq> set ?pushed" by auto
    also have "\<dots> \<subseteq> set (recursive_loop M ov parts ?pushed (part @ [0x0A, 0x0A])
                              (start + max 0 (int (length current) - ov)))"
      by (rule Cons.IH)
    finally show ?thesis using False by (simp add: Let_def)
  qed
qed

lemma all_ws_cleanText: 
  assumes "\<forall>c \<in> set s. is_ws c" shows "cleanText s = []"
proof -
  have "\<forall>c \<in> set (filter (\<lambda>c. 0x1F < c) s). is_ws c"
    using assms by simp
  then have "dropWhile is_ws (filter (\<lambda>c. 0x1F < c) s) = []"
    by (simp only: dropWhile_eq_Nil_conv)
  then show ?thesis
    unfolding cleanText_words by (simp add: ws_words_Nil)
qed

lemma trim_Nil_all_ws:
  assumes "trim s = []" shows "\<forall>c \<in> set s. is_ws c"
proof -
  from assms have "dropWhile is_ws (rev (dropWhile is_ws s)) = []"
    by (simp add: trim_def)
  then have a: "\<forall>c \<in> set (dropWhile is_ws s). is_ws c"
    by (simp only: dropWhile_eq_Nil_conv set_rev)
  have "dropWhile is_ws s = []"
  proof (cases "dropWhile is_ws s")
    case Nil
    then show ?thesis .
  next
    case (Cons c cs)
    then have "\<not> is_ws c"
      using hd_dropWhile [of is_ws s] by simp
    with a Cons show ?thesis by simp
  qed
  then show ?thesis
    by (simp only: dropWhile_eq_Nil_conv)
qed

lemma cleanText_trim_Nil: "cleanText s \<noteq> [] \<Longrightarrow> trim s \<noteq> []"
  using all_ws_cleanText trim_Nil_all_ws by blast

lemma recursive_loop_flushes:
  assumes "M < int (length (cleanText current))" and "0 \<le> M"
  shows "\<exists>c \<in> set (recursive_loop M ov parts cks current start). chunk_text c = cleanText current"
proof -
  from assms have ne: "cleanText current \<noteq> []"
    by auto
  show ?thesis
  proof (cases parts)
    case Nil
    with cleanText_trim_Nil [OF ne] show ?thesis
      by (simp add: recursive_chunk_def)
  next
    case (Cons part rest)
    have "length (cleanText current) \<le> length current"
      by (rule length_cleanText_le)
    with assms(1) have big: "\<not> int (length (current @ part)) \<le> M"
      by simp
    let ?pushed = "cks @ [recursive_chunk (cleanText current) start]"
    have "recursive_chunk (cleanText current) start \<in> set ?pushed"
      by simp
    then have "recursive_chunk (cleanText current) start \<in>
        set (recursive_loop M ov rest ?pushed (part @ [0x0A, 0x0A])
               (start + max 0 (int (length current) - ov)))"
      using recursive_loop_keeps by blast
    moreover have "chunk_text (recursive_chunk (cleanText current) start) = cleanText current"
      by (simp add: recursive_chunk_def)
    ultimately show ?thesis
      using Cons big ne by (auto simp: Let_def)
  qed
qed

lemma recursive_loop_long_part:
  assumes "p \<in> set parts" and "M < int (length (cleanText p))" and "0 \<le> M"
  shows "\<exists>c \<in> set (recursive_loop M ov parts cks current start). chunk_text c = cleanText p"
  using assms(1)
proof (induction parts arbitrary: cks current start)
  case Nil
  then show ?case by simp
next
  case (Cons part parts)
  show ?case
  proof (cases "part = p")
    case True
    have "length (cleanText p) \<le> length p"
      by (rule length_cleanText_le)
    with assms(2) have big: "\<not> int (length (current @ part)) \<le> M"
      using True by simp
    have long: "M < int (length (cleanText (p @ [0x0A, 0x0A])))"
      using assms(2) by (simp only: cleanText_append_nn)
    have "\<exists>c \<in> set (recursive_loop M ov parts cks' (p @ [0x0A, 0x0A]) start').
            chunk_text c = cleanText p" for cks' start'
      using recursive_loop_flushes [OF long assms(3), of ov parts cks' start']
      by (simp only: cleanText_append_nn)
    then show ?thesis
      using big True by (simp add: Let_def)
  next
    case False
    with Cons.prems have "p \<in> set parts" by simp
    from Cons.IH [OF this] show ?thesis
      by (simp add: Let_def)
  qed
qed

lemma split_nn_append_nn:
  "0x0A \<notin> set s \<Longrightarrow> split_nn (s @ 0x0A # 0x0A # t) = s # split_nn t"
proof (induction s)
  case Nil
  show ?case by simp
next
  case (Cons a s)
  then show ?case by (cases s) auto
qed

lemma split_nn_no_lf: "0x0A \<notin> set s \<Longrightarrow> split_nn s = [s]"
  by (induction s rule: split_nn.induct) auto

lemma collapse_ws_no_ws: "\<forall>c \<in> set s. \<not> is_ws c \<Longrightarrow> collapse_ws s = s"
  by (induction s) auto

lemma dropWhile_none: "\<forall>c \<in> set s. \<not> P c \<Longrightarrow> dropWhile P s = s"
  by (cases s) auto

lemma trim_no_ws: "\<forall>c \<in> set s. \<not> is_ws c \<Longrightarrow> trim s = s"
  by (simp add: trim_def dropWhile_none)

lemma cleanText_plain:
  assumes "\<forall>c \<in> set s. \<not> is_ws c \<and> \<not> is_c0 c \<and> c \<noteq> 0"
  shows "cleanText s = s"
proof -
  have "filter (\<lambda>c. \<not> is_c0 c) (filter (\<lambda>c. c \<noteq> 0) s) = s"
    using assms by (simp add: filter_id_conv)
  then show ?thesis
    using assms by (simp add: cleanText_def collapse_ws_no_ws trim_no_ws)
qed

lemma trim_plain_nn:
  assumes "\<forall>c \<in> set s. \<not> is_ws c"
  shows "trim (s @ [0x0A, 0x0A]) = s"
proof (cases s)
  case Nil
  then show ?thesis by (simp add: trim_def is_ws_def)
next
  case (Cons a s')
  with assms have "dropWhile is_ws (s @ [0x0A, 0x0A]) = s @ [0x0A, 0x0A]"
    by simp
  moreover have "dropWhile is_ws (rev s) = rev s"
    using assms by (simp add: dropWhile_none)
  ultimately show ?thesis
    by (simp add: trim_def is_ws_def)
qed

lemma cleanText_plain_nn:
  assumes "\<forall>c \<in> set s. \<not> is_ws c \<and> \<not> is_c0 c \<and> c \<noteq> 0"
  shows "cleanText (s @ [0x0A, 0x0A]) = s"
  using cleanText_plain [OF assms] by (simp only: cleanText_append_nn)

text \<open>
  Claim C5, as stated, fails: one paragraph of 1701 characters is returned as one chunk of 1701
  characters, more than \<open>maxChars + overlap = 1700\<close>.
\<close>

theorem recursive_chunk_oversize:
  "recursiveChunkWithMeta (replicate 1701 0x61) 1500 200 =
     [\<lparr>chunk_text = replicate 1701 0x61, chunk_index = 0, chunk_type = Recursive,
       char_start = 0, char_end = 1701\<rparr>]"
proof -
  let ?s = "replicate 1701 (0x61 :: jschar)"
  have plain: "\<forall>c \<in> set ?s. \<not> is_ws c \<and> \<not> is_c0 c \<and> c \<noteq> 0"
    by (simp add: is_ws_def is_c0_def)
  have sp: "split_nn ?s = [?s]"
    by (rule split_nn_no_lf) simp
  have ct: "cleanText (?s @ [0x0A, 0x0A]) = ?s"
    using cleanText_plain [OF plain] by (simp only: cleanText_append_nn)
  have tr: "trim (?s @ [0x0A, 0x0A]) = ?s"
    using plain by (intro trim_plain_nn) blast
  have ne: "?s \<noteq> []" by simp
  have "recursive_loop 1500 200 [?s] [] [] 0 = [recursive_chunk ?s 0]"
    using ct tr ne by (simp add: cleanText_def trim_def)
  then show ?thesis
    by (simp add: recursiveChunkWithMeta_def sp with_index_def recursive_chunk_def)
qed

text \<open>
  Claim C5, amended. For non-negative \<open>maxChars\<close> and \<open>overlap\<close> (the defaults 1500 and
  200 included), every chunk of the recursive strategy has at most \<open>maxChars + overlap\<close>
  characters if and only if every blank-line-separated segment of the input, once normalized
  by \<open>cleanText\<close>, has at most \<open>maxChars + overlap\<close> characters: a segment is never
  split, and a segment longer than \<open>maxChars\<close> becomes a chunk of its own.
\<close>

theorem recursive_chunk_length_bound:
  assumes "0 \<le> maxChars" and "0 \<le> overlap"
  shows "(\<forall>c \<in> set (recursiveChunkWithMeta text maxChars overlap).
            int (length (chunk_text c)) \<le> maxChars + overlap) \<longleftrightarrow>
         (\<forall>p \<in> set (split_nn text). int (length (cleanText p)) \<le> maxChars + overlap)"
proof
  assume parts: "\<forall>p \<in> set (split_nn text). int (length (cleanText p)) \<le> maxChars + overlap"
  have "\<forall>c \<in> set (recursive_loop maxChars overlap (split_nn text) [] [] 0).
               int (length (chunk_text c)) \<le> maxChars + overlap"
    using parts assms by (intro recursive_loop_bound) (simp_all add: cleanText_def trim_def)
  then have "\<forall>t \<in> set (map chunk_text (recursiveChunkWithMeta text maxChars overlap)).
               int (length t) \<le> maxChars + overlap"
    unfolding recursiveChunkWithMeta_def with_index_texts by simp
  then show "\<forall>c \<in> set (recursiveChunkWithMeta text maxChars overlap).
            int (length (chunk_text c)) \<le> maxChars + overlap"
    by simp
next
  assume chunks: "\<forall>c \<in> set (recursiveChunkWithMeta text maxChars overlap).
            int (length (chunk_text c)) \<le> maxChars + overlap"
  show "\<forall>p \<in> set (split_nn text). int (length (cleanText p)) \<le> maxChars + overlap"
  proof (rule ccontr)
    assume "\<not> (\<forall>p \<in> set (split_nn text). int (length (cleanText p)) \<le> maxChars + overlap)"
    then obtain p where p: "p \<in> set (split_nn text)"
      and long: "maxChars + overlap < int (length (cleanText p))"
      by auto
    from long assms(2) have "maxChars < int (length (cleanText p))"
      by linarith
    from recursive_loop_long_part [OF p this assms(1)]
    obtain c where "c \<in> set (recursive_loop maxChars overlap (split_nn text) [] [] 0)"
      and "chunk_text c = cleanText p"
      by blast
    then have "cleanText p \<in> set (map chunk_text (recursive_loop maxChars overlap (split_nn text) [] [] 0))"
      by force
    then have "cleanText p \<in> set (map chunk_text (recursiveChunkWithMeta text maxChars overlap))"
      unfolding recursiveChunkWithMeta_def with_index_texts .
    with chunks long show False
      by auto
  qed
qed

text \<open>
  A text of three segments of 1000, 1600 and 10 characters: the second and the third segment
  do not fit into the chunk under construction, which is flushed each time; the three chunks
  are the three segments, the second one longer than \<open>maxChars\<close>.
\<close>

theorem recursive_chunk_length_bound_witness:
  "(0 :: int) \<le> 1500 \<and> (0 :: int) \<le> 200 \<and>
   split_nn (replicate 1000 0x61 @ 0x0A # 0x0A # replicate 1600 0x62 @ 0x0A # 0x0A # replicate 10 0x63) =
     [replicate 1000 0x61, replicate 1600 0x62, replicate 10 0x63] \<and>
   list_all (\<lambda>p. int (length (cleanText p)) \<le> 1500 + 200)
     (split_nn (replicate 1000 0x61 @ 0x0A # 0x0A # replicate 1600 0x62 @ 0x0A # 0x0A # replicate 10 0x63)) \<and>
   map chunk_text (recursiveChunkWithMeta
     (replicate 1000 0x61 @ 0x0A # 0x0A # replicate 1600 0x62 @ 0x0A # 0x0A # replicate 10 0x63) 1500 200) =
     [replicate 1000 0x61, replicate 1600 0x62, replicate 10 0x63] \<and>
   list_all (\<lambda>c. int (length (chunk_text c)) \<le> 1500 + 200)
     (recursiveChunkWithMeta
       (replicate 1000 0x61 @ 0x0A # 0x0A # replicate 1600 0x62 @ 0x0A # 0x0A # replicate 10 0x63) 1500 200)"
proof -
  let ?A = "replicate 1000 (0x61 :: jschar)"
  let ?B = "replicate 1600 (0x62 :: jschar)"
  let ?C = "replicate 10 (0x63 :: jschar)"
  let ?T = "?A @ 0x0A # 0x0A # ?B @ 0x0A # 0x0A # ?C"
  have plainA: "\<forall>c \<in> set ?A. \<not> is_ws c \<and> \<not> is_c0 c \<and> c \<noteq> 0"
    and plainB: "\<forall>c \<in> set ?B. \<not> is_ws c \<and> \<not> is_c0 c \<and> c \<noteq> 0"
    and plainC: "\<forall>c \<in> set ?C. \<not> is_ws c \<and> \<not> is_c0 c \<and> c \<noteq> 0"
    by (simp_all add: is_ws_def is_c0_def)
  have "split_nn ?T = ?A # split_nn (?B @ 0x0A # 0x0A # ?C)"
    by (rule split_nn_append_nn) simp
  also have "split_nn (?B @ 0x0A # 0x0A # ?C) = ?B # split_nn ?C"
    by (rule split_nn_append_nn) simp
  also have "split_nn ?C = [?C]"
    by (rule split_nn_no_lf) simp
  finally have parts: "split_nn ?T = [?A, ?B, ?C]" .
  have ctA: "cleanText (?A @ [0x0A, 0x0A]) = ?A"
    and ctB: "cleanText (?B @ [0x0A, 0x0A]) = ?B"
    and ctC: "cleanText (?C @ [0x0A, 0x0A]) = ?C"
    by (rule cleanText_plain_nn [OF plainA], rule cleanText_plain_nn [OF plainB],
        rule cleanText_plain_nn [OF plainC])
  have trC: "trim (?C @ [0x0A, 0x0A]) = ?C"
    using plainC by (intro trim_plain_nn) blast
  have neA: "?A \<noteq> []" and neB: "?B \<noteq> []" and neC: "?C \<noteq> []"
    by simp_all
  have loop: "map chunk_text (recursive_loop 1500 200 [?A, ?B, ?C] [] [] 0) = [?A, ?B, ?C]"
    using ctA ctB ctC trC neA neB neC by (simp add: recursive_chunk_def)
  have texts: "map chunk_text (recursiveChunkWithMeta ?T 1500 200) = [?A, ?B, ?C]"
    unfolding recursiveChunkWithMeta_def with_index_texts parts by (rule loop)
  have segs: "\<forall>p \<in> set (split_nn ?T). int (length (cleanText p)) \<le> 1500 + 200"
    unfolding parts using cleanText_plain [OF plainA] cleanText_plain [OF plainB]
      cleanText_plain [OF plainC] by simp
  from recursive_chunk_length_bound [of 1500 200 ?T] segs
  have "\<forall>c \<in> set (recursiveChunkWithMeta ?T 1500 200). int (length (chunk_text c)) \<le> 1500 + 200"
    by simp
  with segs parts texts show ?thesis
    by (simp only: list_all_iff simp_thms) simp
qed

text \<open>
  Claim C6. On the empty text the paragraph strategy and the recursive strategy return no
  record. The hybrid strategy returns one record: \<open>base\<close> is empty, \<open>base[0]\<close> is
  \<open>undefined\<close>, and the unconditional \<open>merged.push(current)\<close> followed by the final
  \<open>map\<close> yields an object with \<open>chunk_index\<close> 0 and \<open>chunk_type\<close> hybrid, without
  text and offsets.
\<close>

theorem empty_text_chunks:
  "paragraphChunkWithMeta [] = [] \<and>
   recursiveChunkWithMeta [] 1500 200 = [] \<and>
   hybridChunkWithMeta [] = [IndexOnly 0 Hybrid]"
  by (simp add: paragraphChunkWithMeta_def recursiveChunkWithMeta_def hybridChunkWithMeta_def
      with_index_def cleanText_def trim_def is_ws_def)

section \<open>Retrieval is scoped to the asking user\<close>






section \<open>Upload deduplication\<close>

lemma insert_chunk_documents:
  "insert_chunk env r st = Some st' \<Longrightarrow> documents st' = documents st"
  by (auto simp: insert_chunk_def split: if_splits)

lemma inline_loop_documents: "documents (fst (inline_loop env k cs st)) = documents st"
proof (induction cs arbitrary: st)
  case Nil
  show ?case by simp
next
  case (Cons c cs)
  show ?case
  proof (cases "embed env c")
    case None
    then show ?thesis by simp
  next
    case (Some e)
    then show ?thesis
      using Cons.IH by (auto dest: insert_chunk_documents split: option.splits)
  qed
qed

lemma inline_processing_documents:
  "documents (fst (inline_processing env content k st)) = documents st"
  unfolding inline_processing_def
  using inline_loop_documents [of env k _ st]
  by (auto split: option.splits prod.splits) (metis fst_conv)

lemma select_document_cong:
  "documents a = documents b \<Longrightarrow> select_document a p u = select_document b p u"
  by (simp add: select_document_def)

lemma take1_Cons: "take 1 xs = y # ys \<Longrightarrow> take 1 xs = [y]"
  by (cases xs) auto

lemma take1_Nil: "take 1 xs = [] \<Longrightarrow> xs = []"
  by (cases xs) auto

text \<open>After an upload that reports no error, the uploader has a document at the storage path.\<close>

lemma upload_one_document:
  assumes "upload_one env user_id file st = (r, st1)" and "u_error r = None"
  shows "\<exists>d. select_document st1 (storage_path_of env file) user_id = [d] \<and>
             u_documentId r = Some (d_id d) \<and>
             u_storagePath r = Some (storage_path_of env file)"
proof (cases "select_document st (storage_path_of env file) user_id")
  case (Cons existing rest)
  then have "select_document st (storage_path_of env file) user_id = [existing]"
    unfolding select_document_def by (rule take1_Cons)
  with assms Cons show ?thesis
    by (auto simp: upload_one_def Let_def)
next
  case Nil
  let ?p = "storage_path_of env file"
  have none: "filter (\<lambda>d. d_storage_path d = ?p \<and> d_user_id d = user_id) (documents st) = []"
    using Nil unfolding select_document_def by (rule take1_Nil)
  from assms Nil have se: "storage_error env = None" and ie: "insert_document_error env = None"
    by (auto simp: upload_one_def Let_def failed_upload_def split: option.splits)
  define st1' where "st1' = (if ?p \<in> set (objects st) then st else st\<lparr>objects := objects st @ [?p]\<rparr>)"
  define new where "new = \<lparr>d_id = fresh_id (map d_id (documents st1')), d_user_id = user_id,
      d_file_name = orig_name file, d_storage_path = ?p,
      d_file_hash = sha256_hex env (fileContent file)\<rparr>"
  define st2 where "st2 = st1'\<lparr>documents := documents st1' @ [new]\<rparr>"
  have docs1: "documents st1' = documents st"
    by (simp add: st1'_def)
  have sel2: "select_document st2 ?p user_id = [new]"
    using none by (simp add: select_document_def st2_def docs1 new_def)
  have final: "documents st1 = documents st2 \<and> u_documentId r = Some (d_id new) \<and>
      u_storagePath r = Some ?p"
    using assms(1) Nil se ie sel2
    unfolding upload_one_def Let_def st2_def [symmetric] new_def [symmetric] st1'_def [symmetric]
    by (auto simp: inline_processing_documents split: if_splits)
  then have "select_document st1 ?p user_id = [new]"
    using sel2 select_document_cong [of st1 st2] by simp
  with final show ?thesis by blast
qed

text \<open>
  Claim C2, as stated, fails: the lookup that short-circuits an upload compares the storage
  path, which ends in the extension of the file name. The same bytes uploaded by the same user
  as \<open>report.pdf\<close> and then as \<open>report.PDF\<close> make two documents.
\<close>

theorem upload_same_content_other_extension:
  "fileContent (example_file (js ''report.PDF'')) = fileContent (example_file (js ''report.pdf'')) \<and>
   map d_id (documents (snd (upload_one example_upload_env 1 (example_file (js ''report.pdf'')) empty_store)))
     = [1] \<and>
   map d_id (documents (snd (upload_one example_upload_env 1 (example_file (js ''report.PDF''))
       (snd (upload_one example_upload_env 1 (example_file (js ''report.pdf'')) empty_store)))))
     = [1, 2] \<and>
   u_documentId (fst (upload_one example_upload_env 1 (example_file (js ''report.PDF''))
       (snd (upload_one example_upload_env 1 (example_file (js ''report.pdf'')) empty_store))))
     = Some 2"
  by (simp add: upload_one_def storage_path_of_def orig_name_def ext_of_def select_document_def
      fresh_id_def example_upload_env_def example_file_def empty_store_def js_def Let_def)

text \<open>
  Claim C2, amended. After an upload that reported no error, an upload by the same user of the
  same bytes under a file name with the same extension changes nothing in the store (no
  document, no stored object, no job and no chunk is added) and returns the identifier of the
  existing document, with the note "Already uploaded by you".
\<close>

theorem upload_same_content_deduplicated:
  assumes "upload_one env user_id file st = (r, st1)" and "u_error r = None"
    and "fileContent file' = fileContent file"
    and "ext_of (orig_name file') = ext_of (orig_name file)"
    and "sha256_hex env' = sha256_hex env"
  shows "upload_one env' user_id file' st1 =
           (\<lparr>u_fileName = Some (orig_name file'), u_documentId = u_documentId r,
             u_storagePath = u_storagePath r, u_queued = Some False,
             u_note = Some (js ''Already uploaded by you''), u_error = None\<rparr>, st1)"
proof -
  have p: "storage_path_of env' file' = storage_path_of env file"
    using assms(3-5) by (simp add: storage_path_of_def)
  from upload_one_document [OF assms(1,2)] obtain d
    where "select_document st1 (storage_path_of env file) user_id = [d]"
      and "u_documentId r = Some (d_id d)"
      and "u_storagePath r = Some (storage_path_of env file)"
    by blast
  then show ?thesis
    by (simp add: upload_one_def Let_def p)
qed

text \<open>The same bytes uploaded again as \<open>copy.pdf\<close> return document 1 and leave the store as it is.\<close>

theorem upload_same_content_deduplicated_witness:
  "upload_one example_upload_env 1 (example_file (js ''report.pdf'')) empty_store =
     (\<lparr>u_fileName = Some (js ''report.pdf''), u_documentId = Some 1,
       u_storagePath = Some (js ''uploads/5dd3.pdf''), u_queued = Some True,
       u_note = None, u_error = None\<rparr>,
      \<lparr>documents = [\<lparr>d_id = 1, d_user_id = 1, d_file_name = js ''report.pdf'',
                      d_storage_path = js ''uploads/5dd3.pdf'', d_file_hash = js ''5dd3''\<rparr>],
       chunks = [], objects = [js ''uploads/5dd3.pdf''],
       jobs = [\<lparr>j_filePath = js ''/tmp/f'', j_documentId = 1, j_userId = 1\<rparr>]\<rparr>) \<and>
   upload_one example_upload_env 1 (example_file (js ''copy.pdf''))
     \<lparr>documents = [\<lparr>d_id = 1, d_user_id = 1, d_file_name = js ''report.pdf'',
                      d_storage_path = js ''uploads/5dd3.pdf'', d_file_hash = js ''5dd3''\<rparr>],
       chunks = [], objects = [js ''uploads/5dd3.pdf''],
       jobs = [\<lparr>j_filePath = js ''/tmp/f'', j_documentId = 1, j_userId = 1\<rparr>]\<rparr> =
     (\<lparr>u_fileName = Some (js ''copy.pdf''), u_documentId = Some 1,
       u_storagePath = Some (js ''uploads/5dd3.pdf''), u_queued = Some False,
       u_note = Some (js ''Already uploaded by you''), u_error = None\<rparr>,
      \<lparr>documents = [\<lparr>d_id = 1, d_user_id = 1, d_file_name = js ''report.pdf'',
                      d_storage_path = js ''uploads/5dd3.pdf'', d_file_hash = js ''5dd3''\<rparr>],
       chunks = [], objects = [js ''uploads/5dd3.pdf''],
       jobs = [\<lparr>j_filePath = js ''/tmp/f'', j_documentId = 1, j_userId = 1\<rparr>]\<rparr>)"
proof -
  let ?st1 = "\<lparr>documents = [\<lparr>d_id = 1, d_user_id = 1, d_file_name = js ''report.pdf'',
                      d_storage_path = js ''uploads/5dd3.pdf'', d_file_hash = js ''5dd3''\<rparr>],
       chunks = [], objects = [js ''uploads/5dd3.pdf''],
       jobs = [\<lparr>j_filePath = js ''/tmp/f'', j_documentId = 1, j_userId = 1\<rparr>]\<rparr>"
  let ?r = "\<lparr>u_fileName = Some (js ''report.pdf''), u_documentId = Some 1,
       u_storagePath = Some (js ''uploads/5dd3.pdf''), u_queued = Some True,
       u_note = None, u_error = None\<rparr>"
  have first: "upload_one example_upload_env 1 (example_file (js ''report.pdf'')) empty_store = (?r, ?st1)"
    by (simp add: upload_one_def storage_path_of_def orig_name_def ext_of_def select_document_def
        fresh_id_def example_upload_env_def example_file_def empty_store_def js_def Let_def)
  have ok: "u_error ?r = None"
    by simp
  have content: "fileContent (example_file (js ''copy.pdf'')) = fileContent (example_file (js ''report.pdf''))"
    by (simp add: example_file_def)
  have ext: "ext_of (orig_name (example_file (js ''copy.pdf''))) =
      ext_of (orig_name (example_file (js ''report.pdf'')))"
    by (simp add: orig_name_def ext_of_def example_file_def js_def)
  from upload_same_content_deduplicated [OF first ok content ext refl] first
  show ?thesis
    by (simp add: orig_name_def example_file_def js_def)
qed

section \<open>Embedding failures during ingestion\<close>

text \<open>
  Claim C3. The document of the example has the paragraphs A, B and C, and the embedding
  model throws on B. \<open>processPdfBufferAndInsert\<close> persists the chunk A, logs one processing
  error and stops: the chunk C is never embedded nor persisted. The embedder is called inside
  the \<open>try\<close> block of the whole function, not inside one of its own.
\<close>

theorem embedding_failure_aborts_document:
  "parsePdf example_worker_env [] = Some (js ''A'' @ [0x0A, 0x0A] @ js ''B'' @ [0x0A, 0x0A] @ js ''C'', 1) \<and>
   embed example_worker_env (js ''A'') = Some [1] \<and>
   embed example_worker_env (js ''B'') = None \<and>
   embed example_worker_env (js ''C'') = Some [1] \<and>
   map chunk_text (paragraphChunkWithMeta (js ''A'' @ [0x0A, 0x0A] @ js ''B'' @ [0x0A, 0x0A] @ js ''C''))
     = [js ''A'', js ''B'', js ''C''] \<and>
   map c_chunk_text (chunks (fst (processPdfBufferAndInsert example_worker_env [] 7 empty_store)))
     = [js ''A''] \<and>
   snd (processPdfBufferAndInsert example_worker_env [] 7 empty_store) = [PdfProcessingError]"
  by code_simp

section \<open>Reranking\<close>


section \<open>Context relevance\<close>





section \<open>Faithfulness score\<close>





lemma clamp_bounds: "0 \<le> max 0 (min 100 (z :: int)) \<and> max 0 (min 100 z) \<le> 100"
  by simp




section \<open>Deleting a document\<close>

text \<open>
  Claim C10, as stated, fails for the document identifier 0: no document has this identifier,
  and the request is answered "Missing documentId" (status 400) by the guard
  \<open>if (!documentId)\<close>, not "Document not found".
\<close>

theorem delete_document_zero_id:
  "delete_document False example_store (Some 1) (Some 0) = (MissingDocumentId, example_store, []) \<and>
   \<not> list_ex (\<lambda>d. d_id d = 0) (documents example_store)"
  by (simp add: delete_document_def example_store_def)

text \<open>
  Claim C10, amended. In a store with unique document identifiers, a delete request naming a
  document by an identifier other than 0 (the handler takes a falsy identifier for a missing
  one) that does not exist or belongs to another user is answered "not found" and changes nothing.
  When the requester owns the document and the lookup succeeds, the handler removes exactly
  the chunks of the document, then its row, then its stored object (when it has a storage
  path), in this order, and nothing else.
\<close>

theorem delete_document_owner_only:
  assumes "distinct (map d_id (documents st))" and "doc_id \<noteq> 0"
  shows "(\<not> list_ex (\<lambda>d. d_id d = doc_id \<and> d_user_id d = user_id) (documents st) \<longrightarrow>
            delete_document fetch_error st (Some user_id) (Some doc_id) = (DocumentNotFound, st, [])) \<and>
         (\<forall>d \<in> set (documents st). d_id d = doc_id \<and> d_user_id d = user_id \<longrightarrow>
            (case delete_document False st (Some user_id) (Some doc_id) of
               (response, st', ops) \<Rightarrow>
                 response = DeleteSuccess \<and>
                 chunks st' = filter (\<lambda>c. c_document_id c \<noteq> doc_id) (chunks st) \<and>
                 documents st' = filter (\<lambda>d. d_id d \<noteq> doc_id) (documents st) \<and>
                 objects st' = (if d_storage_path d \<noteq> []
                                then filter (\<lambda>p. p \<noteq> d_storage_path d) (objects st)
                                else objects st) \<and>
                 jobs st' = jobs st \<and>
                 list_all (\<lambda>c. c_document_id c \<noteq> doc_id) (chunks st') \<and>
                 list_all (\<lambda>d. d_id d \<noteq> doc_id) (documents st') \<and>
                 (d_storage_path d \<noteq> [] \<longrightarrow> d_storage_path d \<notin> set (objects st')) \<and>
                 ops = [DeleteChunks doc_id, DeleteDocument doc_id] @
                       (if d_storage_path d \<noteq> [] then [RemoveObject (d_storage_path d)] else [])))"
proof (intro conjI impI ballI)
  assume "\<not> list_ex (\<lambda>d. d_id d = doc_id \<and> d_user_id d = user_id) (documents st)"
  then have "filter (\<lambda>d. d_id d = doc_id \<and> d_user_id d = user_id) (documents st) = []"
    by (auto simp: list_ex_iff filter_empty_conv)
  then show "delete_document fetch_error st (Some user_id) (Some doc_id) = (DocumentNotFound, st, [])"
    using assms(2) by (simp add: delete_document_def)
next
  fix d
  assume d: "d \<in> set (documents st)" and own: "d_id d = doc_id \<and> d_user_id d = user_id"
  have inj: "inj_on d_id (set (documents st))"
    using assms(1) by (simp add: distinct_map)
  have "d' = d" if "d' \<in> set (documents st)" "d_id d' = doc_id" for d'
    using inj_onD [OF inj, of d' d] d own that by simp
  then have "\<forall>d' \<in> set (filter (\<lambda>d. d_id d = doc_id \<and> d_user_id d = user_id) (documents st)). d' = d"
    by auto
  moreover have "filter (\<lambda>d. d_id d = doc_id \<and> d_user_id d = user_id) (documents st) \<noteq> []"
    using d own by (auto simp: filter_empty_conv)
  ultimately have hd: "hd (take 1 (filter (\<lambda>d. d_id d = doc_id \<and> d_user_id d = user_id) (documents st))) = d"
    and ne: "take 1 (filter (\<lambda>d. d_id d = doc_id \<and> d_user_id d = user_id) (documents st)) \<noteq> []"
    by (cases "filter (\<lambda>d. d_id d = doc_id \<and> d_user_id d = user_id) (documents st)"; simp)+
  show "case delete_document False st (Some user_id) (Some doc_id) of
               (response, st', ops) \<Rightarrow>
                 response = DeleteSuccess \<and>
                 chunks st' = filter (\<lambda>c. c_document_id c \<noteq> doc_id) (chunks st) \<and>
                 documents st' = filter (\<lambda>d. d_id d \<noteq> doc_id) (documents st) \<and>
                 objects st' = (if d_storage_path d \<noteq> []
                                then filter (\<lambda>p. p \<noteq> d_storage_path d) (objects st)
                                else objects st) \<and>
                 jobs st' = jobs st \<and>
                 list_all (\<lambda>c. c_document_id c \<noteq> doc_id) (chunks st') \<and>
                 list_all (\<lambda>d. d_id d \<noteq> doc_id) (documents st') \<and>
                 (d_storage_path d \<noteq> [] \<longrightarrow> d_storage_path d \<notin> set (objects st')) \<and>
                 ops = [DeleteChunks doc_id, DeleteDocument doc_id] @
                       (if d_storage_path d \<noteq> [] then [RemoveObject (d_storage_path d)] else [])"
    using assms(2) hd ne
    by (simp add: delete_document_def Let_def list_all_iff)
qed

text \<open>
  User 1 cannot delete the document of user 2; user 2 can, and its chunk, row and object go.
\<close>

theorem delete_document_owner_only_witness:
  "distinct (map d_id (documents example_store)) \<and>
   delete_document False example_store (Some 1) (Some 2) = (DocumentNotFound, example_store, []) \<and>
   delete_document False example_store (Some 2) (Some 2) =
     (DeleteSuccess,
      example_store\<lparr>documents := [hd (documents example_store)],
                     chunks := [hd (chunks example_store)],
                     objects := [js ''uploads/aa.pdf'']\<rparr>,
      [DeleteChunks 2, DeleteDocument 2, RemoveObject (js ''uploads/bb.pdf'')])"
proof -
  have d: "distinct (map d_id (documents example_store))"
    by (simp add: example_store_def)
  have n: "(2 :: nat) \<noteq> 0"
    by simp
  have e: "delete_document False example_store (Some 2) (Some 2) =
     (DeleteSuccess,
      example_store\<lparr>documents := [hd (documents example_store)],
                     chunks := [hd (chunks example_store)],
                     objects := [js ''uploads/aa.pdf'']\<rparr>,
      [DeleteChunks 2, DeleteDocument 2, RemoveObject (js ''uploads/bb.pdf'')])"
    by (simp add: delete_document_def example_store_def js_def)
  from delete_document_owner_only [OF d n, of 1 False] delete_document_owner_only [OF d n, of 2 False] d e
  show ?thesis
    by (simp add: example_store_def)
qed

end
